theory Spec2Isabelle
  imports Main "HOL-Library.Word" "HOL-Library.Sublist"
begin

unbundle bit_operations_syntax

section \<open>Data model of the CANON compressor\<close>

text \<open>
  The program works on bytes (\<open>uint8_t\<close>), a 32-bit rank and 32-bit positions, and a
  table of 256 64-bit signature cells. The three heap buffers of \<open>GF2_Basis\<close> are
  modelled as functions from the index to the cell: \<open>basis\<close> and \<open>derivation\<close> are
  allocated with \<open>malloc\<close> for \<open>MAX_RANK\<close> cells (indices from \<open>MAX_RANK\<close> on lie
  outside the allocation), \<open>span_signature\<close> with \<open>calloc\<close> for the 256 byte values.
\<close>

type_synonym u8 = "8 word"
type_synonym u32 = "32 word"
type_synonym u64 = "64 word"

definition MAX_RANK :: u32 where
  "MAX_RANK = 65536"

record GF2_Basis =
  basis :: "nat \<Rightarrow> u8"
  rank :: u32
  derivation :: "nat \<Rightarrow> u32"
  span_signature :: "u8 \<Rightarrow> u64"

text \<open>
  \<open>basis_init\<close>: \<open>malloc\<close> leaves the contents of \<open>basis\<close> and \<open>derivation\<close>
  indeterminate, so the initial contents \<open>gb\<close> and \<open>gd\<close> are parameters; \<open>calloc\<close>
  zeroes the signature table and the rank.
\<close>

definition basis_init :: "(nat \<Rightarrow> u8) \<Rightarrow> (nat \<Rightarrow> u32) \<Rightarrow> GF2_Basis" where
  "basis_init gb gd =
     \<lparr>basis = gb, rank = 0, derivation = gd, span_signature = (\<lambda>_. 0)\<rparr>"

section \<open>Span test and insertion\<close>

text \<open>
  The scan \<open>int bit = 7; while (bit >= 0 && !(v & (1 << bit))) bit--;\<close> of \<open>in_span\<close>:
  the index of the highest set bit of \<open>v\<close>, or \<open>-1\<close> for \<open>v = 0\<close>. The mask
  \<open>1 << bit\<close> has \<open>bit\<close> at most 7, so the test on the promoted \<open>int\<close> is the test on
  the byte.
\<close>

function highest_bit_from :: "u8 \<Rightarrow> int \<Rightarrow> int" where
  "highest_bit_from v b =
     (if b \<ge> 0 \<and> v AND push_bit (nat b) 1 = 0 then highest_bit_from v (b - 1) else b)"
  by pat_completeness auto
termination
  by (relation "measure (\<lambda>(v, b). nat (b + 1))") auto

declare highest_bit_from.simps [simp del]

definition highest_bit :: "u8 \<Rightarrow> int" where
  "highest_bit v = highest_bit_from v 7"

text \<open>One round of the reduction loop of \<open>in_span\<close>, for the basis entry \<open>b\<close>.\<close>

definition in_span_step :: "u8 \<Rightarrow> u8 \<Rightarrow> u8" where
  "in_span_step residue b =
     (let bit_r = highest_bit residue; bit_b = highest_bit b
      in if bit_r = bit_b \<and> bit_r \<ge> 0 then residue XOR b else residue)"

definition reduce :: "GF2_Basis \<Rightarrow> u8 \<Rightarrow> u8" where
  "reduce B x = fold (\<lambda>i residue. in_span_step residue (basis B i)) [0..<unat (rank B)] x"

definition in_span :: "u8 \<Rightarrow> GF2_Basis \<Rightarrow> bool" where
  "in_span x B =
     (if rank B = 0 then False
      else if span_signature B x = 0 then False
      else reduce B x = 0)"

text \<open>
  \<open>add_to_basis\<close> returns its \<open>bool\<close>, the updated structure and the lines it printed
  on \<open>stderr\<close>.
\<close>

definition rank_error :: string where
  "rank_error = ''Error: Maximum rank exceeded''"

definition mark_combined :: "GF2_Basis \<Rightarrow> u8 \<Rightarrow> (u8 \<Rightarrow> u64) \<Rightarrow> (u8 \<Rightarrow> u64)" where
  "mark_combined B x sig =
     fold (\<lambda>i s. s(basis B i XOR x := 1)) [0..<unat (rank B)] sig"

definition add_to_basis :: "GF2_Basis \<Rightarrow> u8 \<Rightarrow> u32 \<Rightarrow> bool \<times> GF2_Basis \<times> string list" where
  "add_to_basis B x position =
     (if in_span x B then (False, B, [])
      else if rank B \<ge> MAX_RANK then (False, B, [rank_error])
      else
        let B1 = B\<lparr>basis := (basis B)(unat (rank B) := x)\<rparr>;
            B2 = B1\<lparr>derivation := (derivation B1)(unat (rank B1) := position)\<rparr>;
            B3 = B2\<lparr>span_signature := (span_signature B2)(x := 1)\<rparr>;
            B4 = B3\<lparr>span_signature := mark_combined B3 x (span_signature B3)\<rparr>
        in (True, B4\<lparr>rank := rank B4 + 1\<rparr>, []))"

section \<open>Compression and decompression\<close>

text \<open>
  The loop of \<open>canon_compress\<close> over \<open>data[i]\<close>, \<open>i < size\<close>; the 64-bit index is
  narrowed to the 32-bit \<open>position\<close> parameter. The result of \<open>add_to_basis\<close> is
  discarded, as in the source. The progress lines on \<open>stdout\<close> are not modelled.
\<close>

fun compress_loop :: "GF2_Basis \<Rightarrow> nat \<Rightarrow> u8 list \<Rightarrow> GF2_Basis \<times> string list" where
  "compress_loop B i [] = (B, [])"
| "compress_loop B i (x # xs) =
     (case add_to_basis B x (of_nat i) of
        (inserted, B', err) \<Rightarrow>
          (case compress_loop B' (Suc i) xs of (B'', errs) \<Rightarrow> (B'', err @ errs)))"

definition canon_compress ::
    "(nat \<Rightarrow> u8) \<Rightarrow> (nat \<Rightarrow> u32) \<Rightarrow> u8 list \<Rightarrow> GF2_Basis \<times> string list" where
  "canon_compress gb gd data = compress_loop (basis_init gb gd) 0 data"

text \<open>\<open>canon_decompress\<close> returns the output buffer and the value stored in \<open>*output_size\<close>.\<close>

definition canon_decompress :: "GF2_Basis \<Rightarrow> u8 list \<times> u64" where
  "canon_decompress B = (map (basis B) [0..<unat (rank B)], ucast (rank B))"

section \<open>Files and the command line\<close>

text \<open>
  The file system is a map from names to contents, with the set of names that
  \<open>fopen(name, "wb")\<close> can open. A \<open>uint32_t\<close> is written and read in the byte order of
  the host, little-endian here. Every function returns the lines it printed on
  \<open>stderr\<close> last (a line of \<open>perror\<close> is its prefix); \<open>stdout\<close> is not modelled,
  and \<open>malloc\<close> is taken to succeed.
\<close>

record filesystem =
  files :: "string \<rightharpoonup> u8 list"
  writable :: "string \<Rightarrow> bool"

definition magic :: "u8 list" where
  "magic = map (\<lambda>c. of_nat (of_char c)) ''CANON''"

definition u32_bytes :: "u32 \<Rightarrow> u8 list" where
  "u32_bytes w = map (\<lambda>k. ucast (drop_bit (8 * k) w)) [0, 1, 2, 3]"

fun bytes_u32 :: "u8 list \<Rightarrow> u32" where
  "bytes_u32 [] = 0"
| "bytes_u32 (b # bs) = ucast b OR push_bit 8 (bytes_u32 bs)"

text \<open>
  \<open>fread\<close> of one 4-byte element over a cell holding \<open>old\<close>: the bytes that the file
  still has replace the low-address bytes of the cell.
\<close>

definition fread_u32 :: "u32 \<Rightarrow> u8 list \<Rightarrow> u32" where
  "fread_u32 old bs =
     (let got = take 4 bs
      in (old AND NOT (mask (8 * length got))) OR bytes_u32 got)"

definition save_compressed ::
    "string \<Rightarrow> GF2_Basis \<Rightarrow> filesystem \<Rightarrow> bool \<times> filesystem \<times> string list" where
  "save_compressed filename B fs =
     (if \<not> writable fs filename then (False, fs, [''Error opening output file''])
      else
        let content =
              magic
              @ u32_bytes (rank B)
              @ map (basis B) [0..<unat (rank B)]
              @ concat (map (\<lambda>i. u32_bytes (derivation B i)) [0..<unat (rank B)])
        in (True, fs\<lparr>files := (files fs)(filename \<mapsto> content)\<rparr>, []))"

text \<open>
  \<open>strcmp(header, "CANON")\<close> compares the two buffers up to their first NUL byte;
  \<open>header\<close> is six zero bytes overwritten by the at most five bytes that \<open>fread\<close> got.
\<close>

definition c_string :: "u8 list \<Rightarrow> u8 list" where
  "c_string buf = takeWhile (\<lambda>b. b \<noteq> 0) buf"

definition load_compressed ::
    "(nat \<Rightarrow> u8) \<Rightarrow> (nat \<Rightarrow> u32) \<Rightarrow> filesystem \<Rightarrow> string
      \<Rightarrow> GF2_Basis option \<times> string list" where
  "load_compressed gb gd fs filename =
     (case files fs filename of
        None \<Rightarrow> (None, [''Error opening input file''])
      | Some bs \<Rightarrow>
          let got = take 5 bs;
              header = got @ replicate (6 - length got) 0
          in if c_string header \<noteq> c_string (magic @ [0])
             then (None, [''Error: Not a CANON compressed file''])
             else
               let B = basis_init gb gd;
                   rest = drop 5 bs;
                   r = fread_u32 (rank B) rest;
                   rest1 = drop 4 rest;
                   bread = take (unat r) rest1;
                   rest2 = drop (unat r) rest1
               in (Some (B\<lparr>rank := r,
                           basis := (\<lambda>i. if i < length bread then bread ! i else basis B i),
                           derivation := (\<lambda>i. if i < unat r
                                               then fread_u32 (derivation B i) (drop (4 * i) rest2)
                                               else derivation B i)\<rparr>), []))"

definition read_file :: "filesystem \<Rightarrow> string \<Rightarrow> u8 list option \<times> string list" where
  "read_file fs filename =
     (case files fs filename of
        None \<Rightarrow> (None, [''Error opening file''])
      | Some bs \<Rightarrow> (Some bs, []))"

text \<open>
  \<open>main\<close>: the exit code, the file system it leaves and the lines on \<open>stderr\<close>;
  \<open>argv\<close> is the argument vector, \<open>argc\<close> its length.
\<close>

definition main ::
    "(nat \<Rightarrow> u8) \<Rightarrow> (nat \<Rightarrow> u32) \<Rightarrow> filesystem \<Rightarrow> string list
      \<Rightarrow> int \<times> filesystem \<times> string list" where
  "main gb gd fs argv =
     (if length argv < 3 then (1, fs, [])
      else if argv ! 1 = ''compress'' then
        (let input_file = argv ! 2;
             output_file = (if length argv > 3 then argv ! 3 else ''output.canon'')
         in case read_file fs input_file of
              (None, e) \<Rightarrow> (1, fs, e)
            | (Some data, e) \<Rightarrow>
                (case canon_compress gb gd data of
                   (B, e1) \<Rightarrow>
                     (case save_compressed output_file B fs of
                        (saved, fs', e2) \<Rightarrow> (0, fs', e @ e1 @ e2))))
      else if argv ! 1 = ''decompress'' then
        (let input_file = argv ! 2;
             output_file = (if length argv > 3 then argv ! 3 else ''output.bin'')
         in case load_compressed gb gd fs input_file of
              (None, e) \<Rightarrow> (1, fs, e)
            | (Some B, e) \<Rightarrow>
                (case canon_decompress B of
                   (output, output_size) \<Rightarrow>
                     (0,
                      if writable fs output_file
                      then fs\<lparr>files := (files fs)(output_file \<mapsto> take (unat output_size) output)\<rparr>
                      else fs,
                      e)))
      else (1, fs, [''Error: Unknown command'']))"

section \<open>Notions used to state the properties\<close>

text \<open>The entries written so far, \<open>basis[0]\<close> to \<open>basis[rank - 1]\<close>, as a list.\<close>

definition basis_list :: "GF2_Basis \<Rightarrow> u8 list" where
  "basis_list B = map (basis B) [0..<unat (rank B)]"

text \<open>
  The GF(2) span of a list of bytes: the XOR of every sublist (the empty sublist
  gives 0).
\<close>

fun xor_span :: "u8 list \<Rightarrow> u8 list" where
  "xor_span [] = [0]"
| "xor_span (b # bs) = xor_span bs @ map (\<lambda>v. b XOR v) (xor_span bs)"


text \<open>
  The invariant of a reduced basis: no entry is zero and no two entries have the same
  pivot (highest set bit).
\<close>

definition pivot_invariant :: "u8 list \<Rightarrow> bool" where
  "pivot_invariant bs = (0 \<notin> set bs \<and> distinct (map highest_bit bs))"

section \<open>Auxiliary facts\<close>

lemma rank_Suc: "\<not> MAX_RANK \<le> rank B \<Longrightarrow> unat (rank B + 1) = Suc (unat (rank B))"
proof -
  assume "\<not> MAX_RANK \<le> rank B"
  then have "unat (rank B) < 65536"
    by (simp add: MAX_RANK_def word_le_nat_alt)
  then have "unat (rank B) + unat (1 :: u32) < 2 ^ LENGTH(32)"
    by simp
  then have "unat (rank B + 1) = unat (rank B) + unat (1 :: u32)"
    by (simp only: unat_add_lem)
  then show ?thesis by simp
qed

lemma add_to_basis_unchanged:
  "in_span x B \<or> MAX_RANK \<le> rank B \<Longrightarrow> \<exists>e. add_to_basis B x p = (False, B, e)"
  by (auto simp: add_to_basis_def)

lemma add_to_basis_inserted:
  assumes "\<not> in_span x B" "\<not> MAX_RANK \<le> rank B"
  shows "\<exists>B'. add_to_basis B x p = (True, B', [])
           \<and> basis B' = (basis B)(unat (rank B) := x)
           \<and> derivation B' = (derivation B)(unat (rank B) := p)
           \<and> rank B' = rank B + 1"
  using assms by (simp add: add_to_basis_def Let_def)

lemma basis_list_inserted:
  assumes "basis B' = (basis B)(unat (rank B) := x)" "rank B' = rank B + 1" "\<not> MAX_RANK \<le> rank B"
  shows "basis_list B' = basis_list B @ [x]"
  using assms by (simp add: basis_list_def rank_Suc)

lemma compress_loop_basis_list:
  "compress_loop B i xs = (B', errs) \<Longrightarrow> \<exists>ys. subseq ys xs \<and> basis_list B' = basis_list B @ ys"
proof (induction xs arbitrary: B i B' errs)
  case Nil
  then show ?case by auto
next
  case (Cons x xs)
  show ?case
  proof (cases "in_span x B \<or> MAX_RANK \<le> rank B")
    case True
    then obtain e where e: "add_to_basis B x (of_nat i) = (False, B, e)"
      using add_to_basis_unchanged by blast
    obtain B2 e2 where l: "compress_loop B (Suc i) xs = (B2, e2)" by fastforce
    with e Cons.prems have "B' = B2" by simp
    with Cons.IH [OF l] obtain ys where "subseq ys xs" "basis_list B' = basis_list B @ ys" by blast
    then show ?thesis by (meson list_emb_Cons)
  next
    case False
    then obtain B1 where a: "add_to_basis B x (of_nat i) = (True, B1, [])"
      and b: "basis B1 = (basis B)(unat (rank B) := x)" and r: "rank B1 = rank B + 1"
      using add_to_basis_inserted [of x B "of_nat i"] by blast
    obtain B2 e2 where l: "compress_loop B1 (Suc i) xs = (B2, e2)" by fastforce
    with a Cons.prems have "B' = B2" by simp
    with Cons.IH [OF l] obtain ys where ys: "subseq ys xs" "basis_list B' = basis_list B1 @ ys" by blast
    have "basis_list B1 = basis_list B @ [x]"
      using basis_list_inserted [OF b r] False by simp
    with ys have "subseq (x # ys) (x # xs)" "basis_list B' = basis_list B @ (x # ys)" by simp_all
    then show ?thesis by blast
  qed
qed



lemma highest_bit_from_neg:
  "highest_bit_from v b < 0 \<Longrightarrow> int k \<le> b \<Longrightarrow> \<not> bit v k"
proof (induction v b rule: highest_bit_from.induct)
  case (1 v b)
  show ?case
  proof (cases "b \<ge> 0 \<and> v AND push_bit (nat b) 1 = 0")
    case True
    then have rec: "highest_bit_from v b = highest_bit_from v (b - 1)"
      by (subst highest_bit_from.simps) simp
    show ?thesis
    proof (cases "int k = b")
      case True
      then have "nat b = k" by simp
      with \<open>b \<ge> 0 \<and> v AND push_bit (nat b) 1 = 0\<close> have "v AND 2 ^ k = 0"
        by simp
      then show ?thesis by (simp add: and_exp_eq_0_iff_not_bit)
    next
      case False
      with "1.prems" have "int k \<le> b - 1" by simp
      with "1.IH" [OF True] "1.prems" rec show ?thesis by simp
    qed
  next
    case False
    then have "highest_bit_from v b = b"
      by (subst highest_bit_from.simps) (simp only: if_False)
    with "1.prems" show ?thesis by simp
  qed
qed

lemma highest_bit_neg: "highest_bit v < 0 \<Longrightarrow> v = 0"
proof -
  assume neg: "highest_bit v < 0"
  have "\<not> bit v k" for k
  proof (cases "k \<le> 7")
    case True
    with neg show ?thesis
      using highest_bit_from_neg [of v 7 k] by (simp add: highest_bit_def)
  next
    case False
    then show ?thesis
      using bit_imp_le_length [of v k] by auto
  qed
  then show ?thesis
    by (simp add: bit_eq_iff)
qed

lemma in_span_step_self: "in_span_step x x = 0"
  using highest_bit_neg [of x] by (auto simp: in_span_step_def Let_def)

lemma highest_bit_0: "highest_bit 0 = - 1"
  by code_simp

lemma in_span_step_0: "in_span_step 0 b = 0"
  by (simp add: in_span_step_def Let_def highest_bit_0)

lemma fold_in_span_step_0: "fold (\<lambda>i residue. in_span_step residue (f i)) js 0 = 0"
  by (induction js) (simp_all add: in_span_step_0)

lemma reduce_0: "reduce B 0 = 0"
  by (simp add: reduce_def fold_in_span_step_0)

lemma compress_loop_in_span:
  "in_span x B \<Longrightarrow> compress_loop B i (replicate n x) = (B, [])"
  by (induction n arbitrary: i) (simp_all add: add_to_basis_def)

lemma add_first:
  "add_to_basis (basis_init gb gd) x p =
     (True, \<lparr>basis = gb(0 := x), rank = 1, derivation = gd(0 := p),
             span_signature = (\<lambda>_. 0)(x := 1)\<rparr>, [])"
  by (simp add: add_to_basis_def basis_init_def in_span_def mark_combined_def MAX_RANK_def)

lemma in_span_after_first:
  "in_span x \<lparr>basis = gb(0 := x), rank = 1, derivation = d, span_signature = (\<lambda>_. 0)(x := 1)\<rparr>"
  by (simp add: in_span_def reduce_def in_span_step_self)

lemma compress_constant:
  "canon_compress gb gd (x # replicate n x) =
     (\<lparr>basis = gb(0 := x), rank = 1, derivation = gd(0 := 0),
       span_signature = (\<lambda>_. 0)(x := 1)\<rparr>, [])"
  by (simp add: canon_compress_def add_first compress_loop_in_span [OF in_span_after_first])

section \<open>Decompression\<close>


text \<open>
  Claim C1, as stated, fails: the two bytes \<open>1, 1\<close> compress to the basis \<open>[1]\<close>, and
  decompression returns that one byte.
\<close>

theorem roundtrip_counterexample:
  "fst (canon_decompress (fst (canon_compress (\<lambda>_. 0) (\<lambda>_. 0) [1, 1]))) \<noteq> [1, 1]"
  by code_simp

lemma canon_compress_subseq:
  "subseq (basis_list (fst (canon_compress gb gd data))) data"
proof -
  obtain B' errs where c: "compress_loop (basis_init gb gd) 0 data = (B', errs)"
    by fastforce
  from compress_loop_basis_list [OF c] obtain ys
    where "subseq ys data" "basis_list B' = basis_list (basis_init gb gd) @ ys"
    by blast
  moreover have "basis_list (basis_init gb gd) = []"
    by (simp add: basis_list_def basis_init_def)
  ultimately show ?thesis
    by (simp add: canon_compress_def c)
qed

text \<open>
  Claim C1, amended. Decompressing the output of compression returns the basis: the
  bytes that were inserted, in input order, a subsequence of the input whose length is
  the rank. It reproduces the input exactly when every byte was inserted (the rank
  equals the size).
\<close>

theorem decompress_compress_is_basis:
  "(let B = fst (canon_compress gb gd data); out = fst (canon_decompress B)
    in subseq out data
       \<and> length out = unat (rank B)
       \<and> (out = data) = (unat (rank B) = length data))"
proof -
  define B where "B = fst (canon_compress gb gd data)"
  define out where "out = fst (canon_decompress B)"
  have o: "out = basis_list B"
    by (simp add: out_def canon_decompress_def basis_list_def)
  have s: "subseq out data"
    unfolding o B_def by (rule canon_compress_subseq)
  have l: "length out = unat (rank B)"
    by (simp add: o basis_list_def)
  have "(out = data) = (unat (rank B) = length data)"
    using s l subseq_same_length [of out data] by auto
  with s l show ?thesis
    by (simp add: B_def out_def Let_def)
qed

section \<open>Rank\<close>



section \<open>The zero unit\<close>

text \<open>
  Claim C5 on the code. The zero unit lies in the span of every basis, the empty one
  included (it is the empty XOR), so it is never linearly independent; yet on the empty
  basis \<open>add_to_basis\<close> inserts the byte 0, and an all-zero input of three bytes has
  rank 1 and the basis \<open>[0]\<close>.
\<close>

theorem zero_unit_inserted:
  "0 \<in> set (xor_span (basis_list (basis_init (\<lambda>_. 0) (\<lambda>_. 0))))
   \<and> fst (add_to_basis (basis_init (\<lambda>_. 0) (\<lambda>_. 0)) 0 0)
   \<and> unat (rank (fst (canon_compress (\<lambda>_. 0) (\<lambda>_. 0) [0, 0, 0]))) = 1
   \<and> basis_list (fst (canon_compress (\<lambda>_. 0) (\<lambda>_. 0) [0, 0, 0])) = [0]"
  by code_simp

text \<open>
  The behaviour of the code on the zero unit, in general: the byte 0 is inserted when
  the basis is empty, and when \<open>span_signature[0]\<close> is 0 and the rank is below
  \<open>MAX_RANK\<close>; otherwise \<open>add_to_basis\<close> returns false and leaves the structure
  unchanged. An all-zero input of \<open>n\<close> bytes has rank 1 and basis \<open>[0]\<close> for
  \<open>n > 0\<close>, and rank 0 for \<open>n = 0\<close>.
\<close>

lemma zero_unit_behaviour:
  "fst (add_to_basis B 0 p) = (rank B = 0 \<or> (span_signature B 0 = 0 \<and> rank B < MAX_RANK))
   \<and> (if fst (add_to_basis B 0 p) then basis (fst (snd (add_to_basis B 0 p))) (unat (rank B)) = 0
       else fst (snd (add_to_basis B 0 p)) = B)
   \<and> rank (fst (canon_compress gb gd (replicate n 0))) = (if n = 0 then 0 else 1)
   \<and> fst (canon_decompress (fst (canon_compress gb gd (replicate n 0)))) = (if n = 0 then [] else [0])"
proof -
  have i: "in_span 0 B = (rank B \<noteq> 0 \<and> span_signature B 0 \<noteq> 0)"
    by (simp add: in_span_def reduce_0)
  have m: "rank B = 0 \<Longrightarrow> rank B < MAX_RANK"
    by (simp add: MAX_RANK_def)
  have a: "fst (add_to_basis B 0 p) = (rank B = 0 \<or> (span_signature B 0 = 0 \<and> rank B < MAX_RANK))"
    using m by (auto simp: add_to_basis_def i Let_def not_le)
  have b: "if fst (add_to_basis B 0 p) then basis (fst (snd (add_to_basis B 0 p))) (unat (rank B)) = 0
       else fst (snd (add_to_basis B 0 p)) = B"
    by (simp add: add_to_basis_def Let_def)
  have c: "rank (fst (canon_compress gb gd (replicate n 0))) = (if n = 0 then 0 else 1)"
    by (cases n) (simp_all add: compress_constant, simp add: canon_compress_def basis_init_def)
  have d: "fst (canon_decompress (fst (canon_compress gb gd (replicate n 0)))) = (if n = 0 then [] else [0])"
    by (cases n) (simp_all add: compress_constant canon_decompress_def, simp add: canon_compress_def basis_init_def)
  from a b c d show ?thesis by blast
qed

section \<open>The derivation array\<close>





section \<open>Insertion and the span\<close>

text \<open>
  Claim C4 on the code: with the basis \<open>[3, 2]\<close> built by \<open>canon_compress\<close>, the byte
  2 is a basis entry itself, yet \<open>in_span\<close> answers false and \<open>add_to_basis\<close> returns
  true; with the basis \<open>[1, 2, 4]\<close> the byte 7 is the XOR of the three entries, and
  \<open>add_to_basis\<close> returns true as well.
\<close>

theorem in_span_misses_combinations:
  "(let B = fst (canon_compress (\<lambda>_. 0) (\<lambda>_. 0) [3, 2])
    in basis_list B = [3, 2] \<and> 2 \<in> set (xor_span (basis_list B))
       \<and> \<not> in_span 2 B \<and> fst (add_to_basis B 2 2))
   \<and> (let B = fst (canon_compress (\<lambda>_. 0) (\<lambda>_. 0) [1, 2, 4])
       in basis_list B = [1, 2, 4] \<and> 7 \<in> set (xor_span (basis_list B))
          \<and> \<not> in_span 7 B \<and> fst (add_to_basis B 7 3))"
  by code_simp

text \<open>
  Claim C6, as stated, fails: inserting 2 into the basis \<open>[3]\<close> appends the raw unit 2,
  not the reduced residue 1, and the entries 3 and 2 share the pivot bit 1; the input
  \<open>0\<close> gives a basis with a zero entry.
\<close>

theorem pivot_invariant_counterexample:
  "(let B = fst (canon_compress (\<lambda>_. 0) (\<lambda>_. 0) [3]);
        B' = fst (snd (add_to_basis B 2 1))
    in fst (add_to_basis B 2 1) \<and> reduce B 2 = 1 \<and> basis_list B' = [3, 2]
       \<and> \<not> pivot_invariant (basis_list B'))
   \<and> \<not> pivot_invariant (basis_list (fst (canon_compress (\<lambda>_. 0) (\<lambda>_. 0) [0])))"
  by code_simp

text \<open>
  Claim C6, amended. After every insert operation the earlier basis entries are
  unchanged: when \<open>add_to_basis\<close> returns true, the raw unit \<open>x\<close> is the value
  appended and the rank grows by one; when it returns false, the structure is unchanged.
\<close>

theorem add_to_basis_appends_unit:
  "(if fst (add_to_basis B x p)
    then basis_list (fst (snd (add_to_basis B x p))) = basis_list B @ [x]
         \<and> unat (rank (fst (snd (add_to_basis B x p)))) = Suc (unat (rank B))
    else fst (snd (add_to_basis B x p)) = B)"
proof (cases "in_span x B \<or> MAX_RANK \<le> rank B")
  case True
  then obtain e where "add_to_basis B x p = (False, B, e)"
    using add_to_basis_unchanged by blast
  then show ?thesis by simp
next
  case False
  then obtain B1 where a: "add_to_basis B x p = (True, B1, [])"
    and b: "basis B1 = (basis B)(unat (rank B) := x)"
    and r: "rank B1 = rank B + 1"
    using add_to_basis_inserted [of x B p] by blast
  have "basis_list B1 = basis_list B @ [x]"
    using basis_list_inserted [OF b r] False by simp
  moreover have "unat (rank B1) = Suc (unat (rank B))"
    using False by (simp add: r rank_Suc)
  ultimately show ?thesis
    by (simp add: a)
qed

section \<open>The persisted output\<close>

text \<open>
  Claim C9, as stated, fails: the inputs \<open>1, 1\<close> and \<open>1, 1, 1\<close> are saved as the same
  14 bytes (the tag, the rank 1, one basis byte, one derivation cell), which declare
  neither a unit width nor a unit count and hold one derivation cell for two or three
  units.
\<close>

theorem saved_format_counterexample:
  "(let fs = \<lparr>files = Map.empty, writable = (\<lambda>_. True)\<rparr>;
        two = fst (canon_compress (\<lambda>_. 0) (\<lambda>_. 0) [1, 1]);
        three = fst (canon_compress (\<lambda>_. 0) (\<lambda>_. 0) [1, 1, 1])
    in files (fst (snd (save_compressed ''out'' two fs))) ''out''
         = Some [67, 65, 78, 79, 78, 1, 0, 0, 0, 1, 0, 0, 0, 0]
       \<and> files (fst (snd (save_compressed ''out'' three fs))) ''out''
         = Some [67, 65, 78, 79, 78, 1, 0, 0, 0, 1, 0, 0, 0, 0])"
  by code_simp

lemma length_u32_bytes: "length (u32_bytes w) = 4"
  by (simp add: u32_bytes_def)

lemma length_magic: "length magic = 5"
  by (simp add: magic_def)

lemma length_concat_u32_bytes:
  "length (concat (map (\<lambda>i. u32_bytes (f i)) js)) = 4 * length js"
  by (induction js) (simp_all add: length_u32_bytes)

text \<open>
  Claim C9, amended. The persisted output is the magic tag, the rank \<open>r\<close>, the \<open>r\<close>
  basis bytes and \<open>r\<close> derivation cells of four bytes (one for each basis entry),
  \<open>9 + 5 r\<close> bytes in all.
\<close>

theorem saved_format:
  assumes "writable fs filename"
  shows "\<exists>c. files (fst (snd (save_compressed filename B fs))) filename = Some c
           \<and> c = magic @ u32_bytes (rank B) @ basis_list B
                 @ concat (map (\<lambda>i. u32_bytes (derivation B i)) [0..<unat (rank B)])
           \<and> length c = 9 + 5 * unat (rank B)"
  using assms
  by (simp add: save_compressed_def Let_def basis_list_def length_concat_u32_bytes
      length_magic length_u32_bytes)

theorem saved_format_witness:
  "\<exists>c. files (fst (snd (save_compressed ''out'' (fst (canon_compress (\<lambda>_. 0) (\<lambda>_. 0) [1, 1]))
                  \<lparr>files = Map.empty, writable = (\<lambda>_. True)\<rparr>))) ''out'' = Some c
        \<and> length c = 9 + 5 * unat (rank (fst (canon_compress (\<lambda>_. 0) (\<lambda>_. 0) [1, 1])))"
proof -
  have h: "writable \<lparr>files = Map.empty, writable = (\<lambda>_. True)\<rparr> ''out''" by simp
  show ?thesis
    using saved_format [OF h, of "fst (canon_compress (\<lambda>_. 0) (\<lambda>_. 0) [1, 1])"] by blast
qed

section \<open>Rejecting a file without the magic tag\<close>

lemma c_string_padded:
  "0 < k \<Longrightarrow> c_string (got @ replicate k 0) = c_string got"
proof (cases "\<forall>b\<in>set got. b \<noteq> 0")
  case True
  assume "0 < k"
  then obtain n where k: "k = Suc n"
    by (cases k) simp_all
  from True have a: "takeWhile (\<lambda>b. b \<noteq> 0) got = got"
    by (simp add: takeWhile_eq_all_conv)
  from True
  have b: "takeWhile (\<lambda>b. b \<noteq> 0) (got @ replicate k 0)
          = got @ takeWhile (\<lambda>b. b \<noteq> 0) (replicate k 0)"
    by (induction got) simp_all
  have c: "takeWhile (\<lambda>b :: u8. b \<noteq> 0) (replicate k 0) = []"
    by (simp add: k)
  show ?thesis
    unfolding c_string_def b c a by simp
next
  case False
  then obtain b where "b \<in> set got" "\<not> b \<noteq> 0"
    by blast
  then have "takeWhile (\<lambda>b. b \<noteq> 0) (got @ replicate k 0) = takeWhile (\<lambda>b. b \<noteq> 0) got"
    by (rule takeWhile_append1)
  then show ?thesis
    by (simp add: c_string_def)
qed

lemma c_string_magic: "c_string (magic @ [0]) = magic"
  by (simp add: c_string_def magic_def)

lemma header_mismatch:
  assumes "take 5 bs \<noteq> magic"
  shows "c_string (take 5 bs @ replicate (6 - length (take 5 bs)) 0) \<noteq> c_string (magic @ [0])"
proof
  assume eq: "c_string (take 5 bs @ replicate (6 - length (take 5 bs)) 0) = c_string (magic @ [0])"
  define got where "got = take 5 bs"
  have len: "length got \<le> 5"
    by (simp add: got_def)
  then have "0 < 6 - length got" by simp
  with eq have m: "c_string got = magic"
    by (simp add: c_string_padded c_string_magic got_def)
  then have "length (takeWhile (\<lambda>b. b \<noteq> 0) got) = 5"
    by (simp add: c_string_def length_magic)
  with len have "length (takeWhile (\<lambda>b. b \<noteq> 0) got) = length got"
    using length_takeWhile_le [of "\<lambda>b. b \<noteq> 0" got] by simp
  then have "takeWhile (\<lambda>b. b \<noteq> 0) got = got"
    by (metis takeWhile_eq_take take_all order_refl)
  with m have "got = magic"
    by (simp add: c_string_def)
  with assms show False
    by (simp add: got_def)
qed

text \<open>
  Claim C8. For every input file whose first five bytes are not the magic tag,
  \<open>load_compressed\<close> returns \<open>NULL\<close> and \<open>main\<close> in decompress mode exits with
  code 1 and leaves the file system as it was: no output file is written.
\<close>

theorem bad_magic_aborts:
  assumes "files fs input_file = Some bs" "take 5 bs \<noteq> magic"
  shows "fst (load_compressed gb gd fs input_file) = None
         \<and> main gb gd fs (prog # ''decompress'' # input_file # args)
             = (1, fs, [''Error: Not a CANON compressed file''])"
proof -
  have l: "load_compressed gb gd fs input_file = (None, [''Error: Not a CANON compressed file''])"
    using assms(1) header_mismatch [OF assms(2)]
    by (simp add: load_compressed_def Let_def)
  then show ?thesis
    by (simp add: main_def)
qed

theorem bad_magic_aborts_witness:
  "main (\<lambda>_. 0) (\<lambda>_. 0) \<lparr>files = [''in'' \<mapsto> [67, 65, 78, 79, 77, 1, 0, 0, 0, 9]], writable = (\<lambda>_. True)\<rparr>
        [''canon'', ''decompress'', ''in'', ''out'']
   = (1, \<lparr>files = [''in'' \<mapsto> [67, 65, 78, 79, 77, 1, 0, 0, 0, 9]], writable = (\<lambda>_. True)\<rparr>,
      [''Error: Not a CANON compressed file''])"
proof -
  have h1: "files \<lparr>files = [''in'' \<mapsto> [67, 65, 78, 79, 77, 1, 0, 0, 0, 9]], writable = (\<lambda>_. True)\<rparr> ''in''
              = Some [67, 65, 78, 79, 77, 1, 0, 0, 0, 9]"
    by simp
  have h2: "take 5 [67, 65, 78, 79, 77, 1, 0, 0, 0, 9 :: u8] \<noteq> magic"
    by (simp add: magic_def)
  show ?thesis
    using bad_magic_aborts [OF h1 h2] by simp
qed

section \<open>Reaching the maximum rank\<close>

lemma fold_mark_other:
  "\<forall>i\<in>set js. f i \<noteq> k \<Longrightarrow> fold (\<lambda>i s. s(f i := (1 :: u64))) js s k = s k"
  by (induction js arbitrary: s) auto

lemma add_to_basis_signature:
  assumes "\<not> in_span x B" "\<not> MAX_RANK \<le> rank B" "k \<noteq> x"
    and "\<forall>i<unat (rank B). basis B i XOR x \<noteq> k"
  shows "span_signature (fst (snd (add_to_basis B x p))) k = span_signature B k"
proof -
  have "\<forall>i\<in>set [0..<unat (rank B)]. ((basis B)(unat (rank B) := x)) i XOR x \<noteq> k"
    using assms(4) by simp
  from fold_mark_other [OF this] show ?thesis
    using assms(1-3) by (simp add: add_to_basis_def Let_def mark_combined_def)
qed

lemma compress_loop_append:
  "compress_loop B i (xs @ ys) =
     (case compress_loop B i xs of
        (B1, e1) \<Rightarrow>
          (case compress_loop B1 (i + length xs) ys of (B2, e2) \<Rightarrow> (B2, e1 @ e2)))"
  by (induction xs arbitrary: B i) (simp_all split: prod.splits)

lemma step_3_2: "in_span_step 2 3 = 1"
  by code_simp

lemma step_1_2: "in_span_step 1 2 = 1"
  by code_simp

lemma fold_stuck:
  "\<forall>j\<in>set js. f j = 2 \<Longrightarrow> fold (\<lambda>i residue. in_span_step residue (f i)) js 1 = 1"
  by (induction js) (simp_all add: step_1_2)

lemma reduce_stuck:
  assumes "0 < unat (rank B)" "basis B 0 = 3"
    and "\<forall>j. 0 < j \<and> j < unat (rank B) \<longrightarrow> basis B j = 2"
  shows "reduce B 2 = 1"
proof -
  have u: "[0..<unat (rank B)] = 0 # [Suc 0..<unat (rank B)]"
    using assms(1) by (simp add: upt_conv_Cons)
  have "\<forall>j\<in>set [Suc 0..<unat (rank B)]. basis B j = 2"
    using assms(3) by simp
  from fold_stuck [OF this] show ?thesis
    by (simp add: reduce_def u assms(2) step_3_2)
qed

lemma not_in_span_stuck:
  assumes "0 < unat (rank B)" "basis B 0 = 3"
    and "\<forall>j. 0 < j \<and> j < unat (rank B) \<longrightarrow> basis B j = 2"
  shows "\<not> in_span 2 B"
  using reduce_stuck [OF assms] by (simp add: in_span_def)

lemma fill_loop:
  assumes "0 < unat (rank B)" "basis B 0 = 3"
    and "\<forall>j. 0 < j \<and> j < unat (rank B) \<longrightarrow> basis B j = 2"
    and "span_signature B 4 = 0" "span_signature B 5 = 0"
    and "unat (rank B) + n \<le> 65536"
  shows "\<exists>B'. compress_loop B i (replicate n 2) = (B', [])
           \<and> unat (rank B') = unat (rank B) + n
           \<and> basis B' 0 = 3
           \<and> (\<forall>j. 0 < j \<and> j < unat (rank B') \<longrightarrow> basis B' j = 2)
           \<and> span_signature B' 4 = 0 \<and> span_signature B' 5 = 0"
  using assms
proof (induction n arbitrary: B i)
  case 0
  then show ?case by simp
next
  case (Suc n)
  have ns: "\<not> in_span 2 B"
    using not_in_span_stuck [OF Suc.prems(1-3)] .
  have "unat (rank B) < 65536"
    using Suc.prems(6) by simp
  then have nm: "\<not> MAX_RANK \<le> rank B"
    by (simp add: MAX_RANK_def word_le_nat_alt)
  from add_to_basis_inserted [OF ns nm, of "of_nat i"]
  obtain B1 where a: "add_to_basis B 2 (of_nat i) = (True, B1, [])"
    and b: "basis B1 = (basis B)(unat (rank B) := 2)"
    and r: "rank B1 = rank B + 1"
    by blast
  have r1: "unat (rank B1) = Suc (unat (rank B))"
    using nm by (simp add: r rank_Suc)
  have x: "\<forall>i<unat (rank B). basis B i XOR 2 \<noteq> 4 \<and> basis B i XOR 2 \<noteq> 5"
  proof (intro allI impI)
    fix i assume "i < unat (rank B)"
    then have "basis B i = 3 \<or> basis B i = 2"
      using Suc.prems(2,3) by (cases "i = 0") simp_all
    then show "basis B i XOR 2 \<noteq> 4 \<and> basis B i XOR 2 \<noteq> 5"
      by auto
  qed
  have s4: "span_signature B1 4 = 0"
    using add_to_basis_signature [OF ns nm, of 4 "of_nat i"] x a Suc.prems(4) by simp
  have s5: "span_signature B1 5 = 0"
    using add_to_basis_signature [OF ns nm, of 5 "of_nat i"] x a Suc.prems(5) by simp
  have p1: "0 < unat (rank B1)"
    by (simp add: r1)
  have p2: "basis B1 0 = 3"
    using Suc.prems(1,2) by (simp add: b)
  have p3: "\<forall>j. 0 < j \<and> j < unat (rank B1) \<longrightarrow> basis B1 j = 2"
    using Suc.prems(3) by (simp add: b r1 less_Suc_eq)
  have p6: "unat (rank B1) + n \<le> 65536"
    using Suc.prems(6) by (simp add: r1)
  from Suc.IH [OF p1 p2 p3 s4 s5 p6, of "Suc i"]
  obtain B' where "compress_loop B1 (Suc i) (replicate n 2) = (B', [])"
    and "unat (rank B') = unat (rank B1) + n" and "basis B' 0 = 3"
    and "\<forall>j. 0 < j \<and> j < unat (rank B') \<longrightarrow> basis B' j = 2"
    and "span_signature B' 4 = 0" and "span_signature B' 5 = 0"
    by blast
  then show ?case
    by (simp add: a r1)
qed

lemma full_loop:
  assumes "MAX_RANK \<le> rank B"
  shows "compress_loop B i xs
           = (B, replicate (length (filter (\<lambda>x. \<not> in_span x B) xs)) rank_error)"
  using assms by (induction xs arbitrary: i) (simp_all add: add_to_basis_def)


lemma capacity_run:
  assumes "n = 65535"
  shows "\<exists>B'. canon_compress gb gd (3 # replicate n 2 @ [4, 5]) = (B', [rank_error, rank_error])
           \<and> unat (rank B') = 65536 \<and> set (basis_list B') \<subseteq> {3, 2}"
proof -
  define B0 where "B0 = \<lparr>basis = gb(0 := 3), rank = 1, derivation = gd(0 := 0),
                          span_signature = (\<lambda>_. 0)(3 := 1)\<rparr>"
  have first: "add_to_basis (basis_init gb gd) 3 (of_nat 0) = (True, B0, [])"
    by (simp add: add_first B0_def)
  have q1: "0 < unat (rank B0)" and q2: "basis B0 0 = 3"
    and q3: "\<forall>j. 0 < j \<and> j < unat (rank B0) \<longrightarrow> basis B0 j = 2"
    and q4: "span_signature B0 4 = 0" and q5: "span_signature B0 5 = 0"
    and q6: "unat (rank B0) + n \<le> 65536"
    by (auto simp: B0_def assms)
  from fill_loop [OF q1 q2 q3 q4 q5 q6, of 1]
  obtain B' where loop: "compress_loop B0 1 (replicate n 2) = (B', [])"
    and r: "unat (rank B') = unat (rank B0) + n" and b0: "basis B' 0 = 3"
    and bj: "\<forall>j. 0 < j \<and> j < unat (rank B') \<longrightarrow> basis B' j = 2"
    and s4: "span_signature B' 4 = 0" and s5: "span_signature B' 5 = 0"
    by blast
  have r': "unat (rank B') = 65536"
    by (simp add: r B0_def assms)
  then have cap: "MAX_RANK \<le> rank B'"
    by (simp add: MAX_RANK_def word_le_nat_alt)
  have n45: "\<not> in_span 4 B'" "\<not> in_span 5 B'"
    by (simp_all add: in_span_def s4 s5)
  have tail: "compress_loop B' (1 + n) [4, 5] = (B', [rank_error, rank_error])"
    unfolding full_loop [OF cap] using n45 by simp
  have "compress_loop B0 1 (replicate n 2 @ [4, 5]) = (B', [rank_error, rank_error])"
    unfolding compress_loop_append loop prod.case length_replicate tail by simp
  then have run: "canon_compress gb gd (3 # replicate n 2 @ [4, 5]) = (B', [rank_error, rank_error])"
    using first by (simp add: canon_compress_def)
  have "basis B' j = 3 \<or> basis B' j = 2" if "j < unat (rank B')" for j
    using that b0 bj by (cases "j = 0") simp_all
  then have "set (basis_list B') \<subseteq> {3, 2}"
    by (fastforce simp: basis_list_def)
  with run r' show ?thesis by blast
qed

lemma main_compress_exit:
  "files fs input_file = Some data
   \<Longrightarrow> fst (main gb gd fs [prog, ''compress'', input_file, output_file]) = 0"
  by (simp add: main_def read_file_def split: prod.splits)

text \<open>
  Claim C7, as stated, fails: on the 65538 bytes \<open>3, 2, ..., 2, 4, 5\<close> (65535 times
  the byte 2) the basis fills up to \<open>MAX_RANK\<close> entries, the units 4 and 5 are
  refused with one error line each, and \<open>canon_compress\<close> still returns the structure,
  which holds neither of them; \<open>main\<close> in compress mode exits with code 0.
\<close>

theorem capacity_counterexample:
  "(let run = canon_compress (\<lambda>_. 0) (\<lambda>_. 0) (3 # replicate 65535 2 @ [4, 5]);
        output = fst (canon_decompress (fst run))
    in unat (rank (fst run)) = 65536
       \<and> snd run = [rank_error, rank_error]
       \<and> 4 \<notin> set output \<and> 5 \<notin> set output)
   \<and> fst (main (\<lambda>_. 0) (\<lambda>_. 0)
            \<lparr>files = [''in'' \<mapsto> 3 # replicate 65535 2 @ [4, 5]], writable = (\<lambda>_. True)\<rparr>
            [''canon'', ''compress'', ''in'', ''out'']) = 0"
proof -
  obtain B' where run: "canon_compress (\<lambda>_. 0) (\<lambda>_. 0) (3 # replicate 65535 2 @ [4, 5])
                          = (B', [rank_error, rank_error])"
    and r: "unat (rank B') = 65536" and b: "set (basis_list B') \<subseteq> {3, 2}"
    using capacity_run [OF refl, of "\<lambda>_. 0" "\<lambda>_. 0"] by blast
  have o: "fst (canon_decompress B') = basis_list B'"
    by (simp add: canon_decompress_def basis_list_def)
  have "4 \<notin> set (basis_list B')" "5 \<notin> set (basis_list B')"
    using b by auto
  then have a: "(let run = canon_compress (\<lambda>_. 0) (\<lambda>_. 0) (3 # replicate 65535 2 @ [4, 5]);
                     output = fst (canon_decompress (fst run))
                 in unat (rank (fst run)) = 65536
                    \<and> snd run = [rank_error, rank_error]
                    \<and> 4 \<notin> set output \<and> 5 \<notin> set output)"
    unfolding Let_def run fst_conv snd_conv o using r by simp
  have "files \<lparr>files = [''in'' \<mapsto> 3 # replicate 65535 2 @ [4, 5 :: u8]], writable = (\<lambda>_. True)\<rparr> ''in''
          = Some (3 # replicate 65535 2 @ [4, 5])"
    by simp
  from main_compress_exit [OF this] a show ?thesis
    by blast
qed

text \<open>
  Claim C7, amended. When the rank has reached \<open>MAX_RANK\<close>, \<open>add_to_basis\<close> prints
  the error line for a unit that \<open>in_span\<close> does not accept, returns false and leaves
  the structure unchanged; \<open>canon_compress\<close> does not stop there: it goes through the
  rest of the input, prints one error line for each such unit, and returns the
  structure without them.
\<close>

theorem capacity_reported_not_fatal:
  assumes "MAX_RANK \<le> rank B"
  shows "add_to_basis B x p = (False, B, if in_span x B then [] else [rank_error])
         \<and> compress_loop B i xs
             = (B, replicate (length (filter (\<lambda>x. \<not> in_span x B) xs)) rank_error)"
  using assms full_loop [OF assms] by (simp add: add_to_basis_def)

theorem capacity_reported_not_fatal_witness:
  "compress_loop \<lparr>basis = (\<lambda>_. 0), rank = 65536, derivation = (\<lambda>_. 0), span_signature = (\<lambda>_. 0)\<rparr>
       0 [1, 2]
   = (\<lparr>basis = (\<lambda>_. 0), rank = 65536, derivation = (\<lambda>_. 0), span_signature = (\<lambda>_. 0)\<rparr>,
      [rank_error, rank_error])"
proof -
  have h: "MAX_RANK \<le> rank \<lparr>basis = (\<lambda>_. 0), rank = 65536, derivation = (\<lambda>_. 0),
                             span_signature = (\<lambda>_. 0)\<rparr>"
    by (simp add: MAX_RANK_def)
  show ?thesis
    using capacity_reported_not_fatal [OF h, of 0 0 0 "[1, 2]"]
    by (simp add: in_span_def)
qed

end
